theory Spec2Isabelle
  imports Main "HOL-Library.Word" "HOL-Library.AList"
begin

section \<open>Token-ring metadata (locator/token\_metadata.cc)\<close>

text \<open>
  A shallow embedding of \<^verbatim>\<open>token_metadata_impl\<close>, \<^verbatim>\<open>token_metadata\<close> and
  \<^verbatim>\<open>shared_token_metadata\<close>.

  \<^item> Tokens are an arbitrary linearly ordered type \<open>'t\<close>, endpoints an arbitrary type
    \<open>'e\<close>: the code only compares tokens and tests endpoints for equality.
  \<^item> A \<^verbatim>\<open>std::unordered_map\<close> is an association list with distinct keys and a
    \<^verbatim>\<open>std::unordered_set\<close> a list; the order of the list is the (unspecified)
    iteration order of the container, the loops of the code recurse over it.
  \<^item> \<^verbatim>\<open>long\<close> is a 64-bit word compared as a signed number; an increment wraps around
    (in C++ the overflow of a signed counter is undefined).
  \<^item> The thread-local \<^verbatim>\<open>_static_ring_version\<close> is passed explicitly: every operation
    that may call \<^verbatim>\<open>invalidate_cached_rings\<close> takes the counter and returns it.
  \<^item> An exception is a value \<open>Inl e\<close>. The operations below throw before they change the
    object, so a thrown operation leaves its object as it was.
  \<^item> Coroutine suspension points (\<^verbatim>\<open>co_await maybe_yield()\<close>) have no effect on the
    result and are dropped.
\<close>

subsection \<open>Errors\<close>

datatype error =
    internal_error      \<comment> \<open>\<^verbatim>\<open>on_internal_error(tlogger, ...)\<close>\<close>
  | token_collision     \<comment> \<open>\<^verbatim>\<open>runtime_error("Bootstrap Token collision ...")\<close>\<close>
  | empty_ring          \<comment> \<open>\<^verbatim>\<open>runtime_error("sorted_tokens is empty in first_token_index!")\<close>\<close>
  | invalid_bounds      \<comment> \<open>\<^verbatim>\<open>runtime_error("Invalid boost::icl::interval<token> bounds")\<close>\<close>
  | other_exception string  \<comment> \<open>anything thrown by a caller-supplied callback\<close>

subsection \<open>Topology\<close>

datatype node_state = joining | normal | leaving | replacing | left

record endpoint_dc_rack =
  dc :: string
  rack :: string

record node =
  node_dc_rack :: endpoint_dc_rack
  node_state :: "node_state option"

text \<open>
  Modelled from the spec: the class \<^verbatim>\<open>topology\<close> (locator/topology.cc), of which the code
  uses \<^verbatim>\<open>has_endpoint\<close>, \<^verbatim>\<open>add_or_update_endpoint\<close>, \<^verbatim>\<open>remove_endpoint\<close> and
  \<^verbatim>\<open>clone_gently\<close>. It maps an endpoint to its location and optional node state; the
  host-id index is left out, no operation modelled here reads it.
\<close>

type_synonym 'e topology = "('e \<times> node) list"

definition has_endpoint :: "'e topology \<Rightarrow> 'e \<Rightarrow> bool" where
  "has_endpoint topo ep = (ep \<in> set (map fst topo))"

definition add_or_update_endpoint ::
  "'e \<Rightarrow> endpoint_dc_rack \<Rightarrow> node_state option \<Rightarrow> 'e topology \<Rightarrow> 'e topology" where
  "add_or_update_endpoint ep dr opt_st topo =
     (case map_of topo ep of
        None \<Rightarrow> topo @ [(ep, \<lparr>node_dc_rack = dr, node_state = opt_st\<rparr>)]
      | Some n \<Rightarrow>
          AList.update ep
            \<lparr>node_dc_rack = dr,
             node_state = (case opt_st of None \<Rightarrow> node_state n | Some st \<Rightarrow> Some st)\<rparr> topo)"

definition topology_remove_endpoint :: "'e \<Rightarrow> 'e topology \<Rightarrow> 'e topology" where
  "topology_remove_endpoint ep topo = AList.delete ep topo"

subsection \<open>Ranges and intervals\<close>

text \<open>
  Modelled from the spec: \<^verbatim>\<open>range<dht::token>\<close> (range.hh), a token range "with
  independently open/closed bounds and optional unbounded sides". A bound is a value and
  its inclusiveness; an absent bound is an unbounded side.
\<close>

record 't range_bound =
  bound_value :: 't
  is_inclusive :: bool

record 't range =
  range_start :: "'t range_bound option"
  range_end :: "'t range_bound option"

text \<open>
  Modelled from the spec: \<^verbatim>\<open>boost::icl::interval<token>::interval_type\<close>, a lower and an
  upper value and the bound bits (\<^verbatim>\<open>interval_bounds::bits()\<close>, an unsigned char:
  open 0, left-open 1, right-open 2, closed 3).
\<close>

record 't interval =
  lower :: 't
  upper :: 't
  bounds :: "8 word"

definition static_open :: "8 word" where "static_open = 0"
definition static_left_open :: "8 word" where "static_left_open = 1"
definition static_right_open :: "8 word" where "static_right_open = 2"
definition static_closed :: "8 word" where "static_closed = 3"

definition interval_open :: "'t \<Rightarrow> 't \<Rightarrow> 't interval" where
  "interval_open lo up = \<lparr>lower = lo, upper = up, bounds = static_open\<rparr>"

definition interval_left_open :: "'t \<Rightarrow> 't \<Rightarrow> 't interval" where
  "interval_left_open lo up = \<lparr>lower = lo, upper = up, bounds = static_left_open\<rparr>"

definition interval_right_open :: "'t \<Rightarrow> 't \<Rightarrow> 't interval" where
  "interval_right_open lo up = \<lparr>lower = lo, upper = up, bounds = static_right_open\<rparr>"

definition interval_closed :: "'t \<Rightarrow> 't \<Rightarrow> 't interval" where
  "interval_closed lo up = \<lparr>lower = lo, upper = up, bounds = static_closed\<rparr>"

text \<open>
  \<^verbatim>\<open>range_to_interval\<close>; \<^verbatim>\<open>dht::minimum_token()\<close> and \<^verbatim>\<open>dht::maximum_token()\<close> are the
  parameters \<open>minimum_token\<close> and \<open>maximum_token\<close>.
\<close>

definition range_to_interval :: "'t \<Rightarrow> 't \<Rightarrow> 't range \<Rightarrow> 't interval" where
  "range_to_interval minimum_token maximum_token r =
     (let (start, start_inclusive) =
            (case range_start r of
               None \<Rightarrow> (minimum_token, False)
             | Some b \<Rightarrow> (bound_value b, is_inclusive b));
          (end, end_inclusive) =
            (case range_end r of
               None \<Rightarrow> (maximum_token, False)
             | Some b \<Rightarrow> (bound_value b, is_inclusive b))
      in if start_inclusive = False \<and> end_inclusive = False then interval_open start end
         else if start_inclusive = False \<and> end_inclusive = True then interval_left_open start end
         else if start_inclusive = True \<and> end_inclusive = False then interval_right_open start end
         else interval_closed start end)"

definition interval_to_range :: "'t interval \<Rightarrow> error + 't range" where
  "interval_to_range i =
     (if bounds i = static_open then
        Inr \<lparr>range_start = Some \<lparr>bound_value = lower i, is_inclusive = False\<rparr>,
             range_end = Some \<lparr>bound_value = upper i, is_inclusive = False\<rparr>\<rparr>
      else if bounds i = static_left_open then
        Inr \<lparr>range_start = Some \<lparr>bound_value = lower i, is_inclusive = False\<rparr>,
             range_end = Some \<lparr>bound_value = upper i, is_inclusive = True\<rparr>\<rparr>
      else if bounds i = static_right_open then
        Inr \<lparr>range_start = Some \<lparr>bound_value = lower i, is_inclusive = True\<rparr>,
             range_end = Some \<lparr>bound_value = upper i, is_inclusive = False\<rparr>\<rparr>
      else if bounds i = static_closed then
        Inr \<lparr>range_start = Some \<lparr>bound_value = lower i, is_inclusive = True\<rparr>,
             range_end = Some \<lparr>bound_value = upper i, is_inclusive = True\<rparr>\<rparr>
      else Inl invalid_bounds)"

text \<open>
  Modelled from the spec: the continuous intervals of boost::icl. The low bit of the
  bound bits closes the right end, the next bit the left end.
\<close>

definition left_closed :: "'t interval \<Rightarrow> bool" where
  "left_closed i = (bounds i = static_right_open \<or> bounds i = static_closed)"

definition right_closed :: "'t interval \<Rightarrow> bool" where
  "right_closed i = (bounds i = static_left_open \<or> bounds i = static_closed)"

definition interval_is_empty :: "('t::linorder) interval \<Rightarrow> bool" where
  "interval_is_empty i =
     (if left_closed i \<and> right_closed i then upper i < lower i else upper i \<le> lower i)"

definition interval_intersects :: "('t::linorder) interval \<Rightarrow> 't interval \<Rightarrow> bool" where
  "interval_intersects a b =
     (let lo = max (lower a) (lower b);
          up = min (upper a) (upper b);
          lo_closed = ((lower a < lo \<or> left_closed a) \<and> (lower b < lo \<or> left_closed b));
          up_closed = ((up < upper a \<or> right_closed a) \<and> (up < upper b \<or> right_closed b))
      in if interval_is_empty a \<or> interval_is_empty b then False
         else if lo_closed \<and> up_closed then lo \<le> up else lo < up)"

text \<open>
  Modelled from the spec: \<^verbatim>\<open>boost::icl::interval_map<token, std::unordered_set<inet_address>>\<close>,
  "range \<open>\<rightarrow>\<close> set<endpoint>, unioning endpoint sets on range overlap". The model keeps the
  pairs that were added; the segment found for a key carries the union of the sets of all
  added intervals that meet the key. A pair with an empty interval or an empty set is
  absorbed, so the map is empty exactly when the list is.
\<close>

type_synonym ('t, 'e) interval_map = "('t interval \<times> 'e list) list"

definition interval_map_add ::
  "('t::linorder) interval \<times> 'e list \<Rightarrow> ('t, 'e) interval_map \<Rightarrow> ('t, 'e) interval_map" where
  "interval_map_add p im = (if interval_is_empty (fst p) \<or> snd p = [] then im else im @ [p])"

definition interval_map_find ::
  "('t, 'e) interval_map \<Rightarrow> ('t::linorder) interval \<Rightarrow> 'e list option" where
  "interval_map_find im key =
     (let hits = filter (\<lambda>p. interval_intersects (fst p) key) im
      in if hits = [] then None else Some (remdups (concat (map snd hits))))"

subsection \<open>The ring snapshot: \<^verbatim>\<open>token_metadata_impl\<close>\<close>

record ('t, 'e) token_metadata_impl =
  token_to_endpoint_map :: "('t \<times> 'e) list"
  normal_token_owners :: "'e list"
  bootstrap_tokens :: "('t \<times> 'e) list"
  leaving_endpoints :: "'e list"
  replacing_endpoints :: "('e \<times> 'e) list"
  pending_ranges_interval_map :: "(string \<times> ('t, 'e) interval_map) list"
  sorted_tokens :: "'t list"
  topology :: "'e topology"
  ring_version :: "64 word"

text \<open>The pair of \<^verbatim>\<open>_static_ring_version\<close> and the object an operation works on.\<close>

type_synonym ('t, 'e) world = "64 word \<times> ('t, 'e) token_metadata_impl"

text \<open>\<^verbatim>\<open>token_metadata_impl(token_metadata::config)\<close>: empty containers, ring version 0.\<close>

definition new_token_metadata_impl :: "('t, 'e) token_metadata_impl" where
  "new_token_metadata_impl =
     \<lparr>token_to_endpoint_map = [], normal_token_owners = [], bootstrap_tokens = [],
      leaving_endpoints = [], replacing_endpoints = [], pending_ranges_interval_map = [],
      sorted_tokens = [], topology = [], ring_version = 0\<rparr>"

definition remove_by_value :: "('k \<times> 'v) list \<Rightarrow> 'v \<Rightarrow> ('k \<times> 'v) list" where
  "remove_by_value container v = filter (\<lambda>p. snd p \<noteq> v) container"

text \<open>\<^verbatim>\<open>std::unordered_set::insert\<close> / \<^verbatim>\<open>emplace\<close>.\<close>

definition set_insert :: "'a \<Rightarrow> 'a list \<Rightarrow> 'a list" where
  "set_insert x xs = (if x \<in> set xs then xs else xs @ [x])"

definition invalidate_cached_rings :: "('t, 'e) world \<Rightarrow> ('t, 'e) world" where
  "invalidate_cached_rings w = (fst w + 1, (snd w)\<lparr>ring_version := fst w + 1\<rparr>)"

definition get_ring_version :: "('t, 'e) token_metadata_impl \<Rightarrow> 64 word" where
  "get_ring_version s = ring_version s"

definition sort_tokens ::
  "('t::linorder, 'e) token_metadata_impl \<Rightarrow> ('t, 'e) token_metadata_impl" where
  "sort_tokens s = s\<lparr>sorted_tokens := sort (map fst (token_to_endpoint_map s))\<rparr>"

definition update_normal_token_owners ::
  "('t, 'e) token_metadata_impl \<Rightarrow> ('t, 'e) token_metadata_impl" where
  "update_normal_token_owners s =
     s\<lparr>normal_token_owners := fold (\<lambda>p eps. set_insert (snd p) eps) (token_to_endpoint_map s) []\<rparr>"

definition update_topology ::
  "'e \<Rightarrow> endpoint_dc_rack \<Rightarrow> node_state option \<Rightarrow> ('t, 'e) token_metadata_impl
     \<Rightarrow> ('t, 'e) token_metadata_impl" where
  "update_topology ep dr opt_st s = s\<lparr>topology := add_or_update_endpoint ep dr opt_st (topology s)\<rparr>"

text \<open>
  Phase 1 of \<^verbatim>\<open>update_normal_tokens\<close>: walk the token map; an entry of the endpoint whose
  token is not in \<open>tokens\<close> is erased, one whose token is in \<open>tokens\<close> stays and the
  token is erased from \<open>tokens\<close>. Returns the map and the tokens left.
\<close>

fun erase_previous_tokens ::
  "('t \<times> 'e) list \<Rightarrow> 't list \<Rightarrow> 'e \<Rightarrow> ('t \<times> 'e) list \<times> 't list" where
  "erase_previous_tokens [] tokens endpoint = ([], tokens)"
| "erase_previous_tokens (it # rest) tokens endpoint =
     (if snd it = endpoint then
        (if fst it \<in> set tokens then
           (let r = erase_previous_tokens rest (removeAll (fst it) tokens) endpoint
            in (it # fst r, snd r))
         else erase_previous_tokens rest tokens endpoint)
      else (let r = erase_previous_tokens rest tokens endpoint in (it # fst r, snd r)))"

text \<open>
  The insertion loop of phase 2: \<^verbatim>\<open>insert\<close> adds a token that is not a key, and sets
  \<^verbatim>\<open>should_sort_tokens\<close>; a token that is a key of another endpoint changes owner.
\<close>

fun insert_tokens ::
  "'t list \<Rightarrow> 'e \<Rightarrow> ('t \<times> 'e) list \<Rightarrow> bool \<Rightarrow> ('t \<times> 'e) list \<times> bool" where
  "insert_tokens [] endpoint m should_sort_tokens = (m, should_sort_tokens)"
| "insert_tokens (t # ts) endpoint m should_sort_tokens =
     (case map_of m t of
        None \<Rightarrow> insert_tokens ts endpoint (m @ [(t, endpoint)]) True
      | Some prev \<Rightarrow>
          insert_tokens ts endpoint
            (if prev \<noteq> endpoint then AList.update t endpoint m else m) should_sort_tokens)"

definition update_normal_tokens ::
  "('t::linorder) list \<Rightarrow> 'e \<Rightarrow> ('t, 'e) world \<Rightarrow> error + ('t, 'e) world" where
  "update_normal_tokens tokens endpoint w =
     (if tokens = [] then Inr w
      else if \<not> has_endpoint (topology (snd w)) endpoint then Inl internal_error
      else
        (let s = snd w;
             p1 = erase_previous_tokens (token_to_endpoint_map s) tokens endpoint;
             s1 = s\<lparr>token_to_endpoint_map := fst p1,
                    bootstrap_tokens := remove_by_value (bootstrap_tokens s) endpoint,
                    leaving_endpoints := removeAll endpoint (leaving_endpoints s)\<rparr>;
             w2 = invalidate_cached_rings (fst w, s1);
             p2 = insert_tokens (snd p1) endpoint (token_to_endpoint_map (snd w2)) False;
             s3 = update_normal_token_owners ((snd w2)\<lparr>token_to_endpoint_map := fst p2\<rparr>)
         in Inr (fst w2, if snd p2 then sort_tokens s3 else s3)))"

text \<open>
  \<^verbatim>\<open>first_token_index\<close>. \<^verbatim>\<open>std::lower_bound\<close> returns the furthest position such that
  every element before it is less than the value.
\<close>

definition lower_bound :: "('t::linorder) list \<Rightarrow> 't \<Rightarrow> nat" where
  "lower_bound xs v = length (takeWhile (\<lambda>x. x < v) xs)"

definition first_token_index :: "('t::linorder, 'e) token_metadata_impl \<Rightarrow> 't \<Rightarrow> error + nat" where
  "first_token_index s start =
     (if sorted_tokens s = [] then Inl empty_ring
      else (let it = lower_bound (sorted_tokens s) start
            in if it = length (sorted_tokens s) then Inr 0 else Inr it))"

definition first_token :: "('t::linorder, 'e) token_metadata_impl \<Rightarrow> 't \<Rightarrow> error + 't" where
  "first_token s start =
     (case first_token_index s start of
        Inl e \<Rightarrow> Inl e
      | Inr i \<Rightarrow> Inr (sorted_tokens s ! i))"

subsection \<open>Transition sets\<close>

text \<open>The checking loop of \<^verbatim>\<open>add_bootstrap_tokens\<close>: true when it throws.\<close>

fun bootstrap_token_collision ::
  "'t list \<Rightarrow> 'e \<Rightarrow> ('t \<times> 'e) list \<Rightarrow> ('t \<times> 'e) list \<Rightarrow> bool" where
  "bootstrap_token_collision [] endpoint bs tte = False"
| "bootstrap_token_collision (t # ts) endpoint bs tte =
     (if (case map_of bs t of None \<Rightarrow> False | Some old_endpoint \<Rightarrow> old_endpoint \<noteq> endpoint)
      then True
      else if (case map_of tte t of None \<Rightarrow> False | Some old_endpoint2 \<Rightarrow> old_endpoint2 \<noteq> endpoint)
      then True
      else bootstrap_token_collision ts endpoint bs tte)"

definition add_bootstrap_tokens ::
  "'t list \<Rightarrow> 'e \<Rightarrow> ('t, 'e) token_metadata_impl \<Rightarrow> error + ('t, 'e) token_metadata_impl" where
  "add_bootstrap_tokens tokens endpoint s =
     (if bootstrap_token_collision tokens endpoint (bootstrap_tokens s) (token_to_endpoint_map s)
      then Inl token_collision
      else Inr (s\<lparr>bootstrap_tokens :=
                   fold (\<lambda>t bs. AList.update t endpoint bs) tokens
                     (filter (\<lambda>n. snd n \<noteq> endpoint) (bootstrap_tokens s))\<rparr>))"

definition add_bootstrap_token ::
  "'t \<Rightarrow> 'e \<Rightarrow> ('t, 'e) token_metadata_impl \<Rightarrow> error + ('t, 'e) token_metadata_impl" where
  "add_bootstrap_token t endpoint s = add_bootstrap_tokens [t] endpoint s"

definition remove_bootstrap_tokens ::
  "'t list \<Rightarrow> ('t, 'e) token_metadata_impl \<Rightarrow> ('t, 'e) token_metadata_impl" where
  "remove_bootstrap_tokens tokens s =
     (if tokens = [] then s
      else s\<lparr>bootstrap_tokens := fold (\<lambda>t bs. AList.delete t bs) tokens (bootstrap_tokens s)\<rparr>)"

definition add_leaving_endpoint ::
  "'e \<Rightarrow> ('t, 'e) token_metadata_impl \<Rightarrow> ('t, 'e) token_metadata_impl" where
  "add_leaving_endpoint endpoint s = s\<lparr>leaving_endpoints := set_insert endpoint (leaving_endpoints s)\<rparr>"

definition del_leaving_endpoint ::
  "'e \<Rightarrow> ('t, 'e) token_metadata_impl \<Rightarrow> ('t, 'e) token_metadata_impl" where
  "del_leaving_endpoint endpoint s = s\<lparr>leaving_endpoints := removeAll endpoint (leaving_endpoints s)\<rparr>"

definition add_replacing_endpoint ::
  "'e \<Rightarrow> 'e \<Rightarrow> ('t, 'e) token_metadata_impl \<Rightarrow> ('t, 'e) token_metadata_impl" where
  "add_replacing_endpoint existing_node replacing_node s =
     s\<lparr>replacing_endpoints := AList.update existing_node replacing_node (replacing_endpoints s)\<rparr>"

definition del_replacing_endpoint ::
  "'e \<Rightarrow> ('t, 'e) token_metadata_impl \<Rightarrow> ('t, 'e) token_metadata_impl" where
  "del_replacing_endpoint existing_node s =
     s\<lparr>replacing_endpoints := AList.delete existing_node (replacing_endpoints s)\<rparr>"

text \<open>\<^verbatim>\<open>token_metadata_impl::remove_endpoint\<close>: it does not sort the tokens.\<close>

definition impl_remove_endpoint :: "'e \<Rightarrow> ('t, 'e) world \<Rightarrow> ('t, 'e) world" where
  "impl_remove_endpoint endpoint w =
     (let s = snd w;
          s1 = s\<lparr>bootstrap_tokens := remove_by_value (bootstrap_tokens s) endpoint,
                 token_to_endpoint_map := remove_by_value (token_to_endpoint_map s) endpoint,
                 normal_token_owners := removeAll endpoint (normal_token_owners s),
                 topology := topology_remove_endpoint endpoint (topology s),
                 leaving_endpoints := removeAll endpoint (leaving_endpoints s)\<rparr>
      in invalidate_cached_rings (fst w, del_replacing_endpoint endpoint s1))"

text \<open>\<^verbatim>\<open>token_metadata::remove_endpoint\<close>: the public operation, which sorts.\<close>

definition remove_endpoint :: "'e \<Rightarrow> ('t::linorder, 'e) world \<Rightarrow> ('t, 'e) world" where
  "remove_endpoint endpoint w =
     (let w1 = impl_remove_endpoint endpoint w in (fst w1, sort_tokens (snd w1)))"

subsection \<open>Clones\<close>

definition clone_only_token_map ::
  "bool \<Rightarrow> ('t, 'e) token_metadata_impl \<Rightarrow> ('t, 'e) token_metadata_impl" where
  "clone_only_token_map clone_sorted_tokens s =
     new_token_metadata_impl
       \<lparr>token_to_endpoint_map := token_to_endpoint_map s,
        normal_token_owners := normal_token_owners s,
        topology := topology s,
        sorted_tokens := (if clone_sorted_tokens then sorted_tokens s else [])\<rparr>"

definition clone_async :: "('t, 'e) token_metadata_impl \<Rightarrow> ('t, 'e) token_metadata_impl" where
  "clone_async s =
     (clone_only_token_map True s)
       \<lparr>bootstrap_tokens := bootstrap_tokens s,
        leaving_endpoints := leaving_endpoints s,
        replacing_endpoints := replacing_endpoints s,
        pending_ranges_interval_map := pending_ranges_interval_map s,
        ring_version := ring_version s\<rparr>"

definition clone_after_all_left :: "('t::linorder, 'e) world \<Rightarrow> ('t, 'e) world" where
  "clone_after_all_left w =
     (let all_left_metadata =
            fold impl_remove_endpoint (leaving_endpoints (snd w))
              (fst w, clone_only_token_map False (snd w))
      in (fst all_left_metadata, sort_tokens (snd all_left_metadata)))"

subsection \<open>Pending ranges\<close>

text \<open>
  Modelled from the spec: \<^verbatim>\<open>abstract_replication_strategy\<close>, "a capability set
  {calculate\_natural\_endpoints, get\_ranges}", both functions of a ring snapshot.
\<close>

record ('t, 'e) replication_strategy =
  get_ranges :: "'e \<Rightarrow> ('t, 'e) token_metadata_impl \<Rightarrow> 't range list"
  calculate_natural_endpoints :: "'t \<Rightarrow> ('t, 'e) token_metadata_impl \<Rightarrow> 'e list"

type_synonym ('t, 'e) pending_ranges = "('t range \<times> 'e) list"

text \<open>
  The first loop of \<^verbatim>\<open>set_pending_ranges\<close>: group the endpoints by range; an endpoint seen
  for the first time must be in the topology.
\<close>

fun group_pending_ranges ::
  "('t, 'e) pending_ranges \<Rightarrow> 'e topology \<Rightarrow> ('t range \<times> 'e list) list \<Rightarrow> 'e list
     \<Rightarrow> error + ('t range \<times> 'e list) list" where
  "group_pending_ranges [] topo m endpoints = Inr m"
| "group_pending_ranges (x # xs) topo m endpoints =
     (let m1 = AList.update (fst x)
                 (set_insert (snd x) (case map_of m (fst x) of None \<Rightarrow> [] | Some eps \<Rightarrow> eps)) m
      in if snd x \<notin> set endpoints \<and> \<not> has_endpoint topo (snd x) then Inl internal_error
         else group_pending_ranges xs topo m1 (set_insert (snd x) endpoints))"

definition set_pending_ranges ::
  "'t \<Rightarrow> 't \<Rightarrow> string \<Rightarrow> ('t::linorder, 'e) pending_ranges \<Rightarrow> ('t, 'e) token_metadata_impl
     \<Rightarrow> error + ('t, 'e) token_metadata_impl" where
  "set_pending_ranges minimum_token maximum_token keyspace_name new_pending_ranges s =
     (if new_pending_ranges = [] then
        Inr (s\<lparr>pending_ranges_interval_map :=
                 AList.delete keyspace_name (pending_ranges_interval_map s)\<rparr>)
      else
        (case group_pending_ranges new_pending_ranges (topology s) [] [] of
           Inl e \<Rightarrow> Inl e
         | Inr m \<Rightarrow>
             (let interval_map =
                    fold (\<lambda>p im. interval_map_add
                                   (range_to_interval minimum_token maximum_token (fst p), snd p) im)
                      m []
              in Inr (s\<lparr>pending_ranges_interval_map :=
                          AList.update keyspace_name interval_map
                            (pending_ranges_interval_map s)\<rparr>))))"

definition has_pending_ranges :: "string \<Rightarrow> 'e \<Rightarrow> ('t, 'e) token_metadata_impl \<Rightarrow> bool" where
  "has_pending_ranges keyspace_name endpoint s =
     (case map_of (pending_ranges_interval_map s) keyspace_name of
        None \<Rightarrow> False
      | Some im \<Rightarrow> list_ex (\<lambda>item. endpoint \<in> set (snd item)) im)"

definition calculate_pending_ranges_for_replacing ::
  "('t, 'e) replication_strategy \<Rightarrow> ('t, 'e) token_metadata_impl \<Rightarrow> ('t, 'e) pending_ranges
     \<Rightarrow> ('t, 'e) pending_ranges" where
  "calculate_pending_ranges_for_replacing strategy s new_pending_ranges =
     (if replacing_endpoints s = [] then new_pending_ranges
      else fold (\<lambda>node npr. npr @ map (\<lambda>x. (x, snd node)) (get_ranges strategy (fst node) s))
             (replacing_endpoints s) new_pending_ranges)"

definition calculate_pending_ranges_for_leaving ::
  "'t \<Rightarrow> ('t, 'e) replication_strategy \<Rightarrow> ('t, 'e) token_metadata_impl \<Rightarrow> ('t, 'e) pending_ranges
     \<Rightarrow> ('t, 'e) token_metadata_impl \<Rightarrow> ('t, 'e) pending_ranges" where
  "calculate_pending_ranges_for_leaving maximum_token strategy s new_pending_ranges all_left_metadata =
     (if leaving_endpoints s = [] then new_pending_ranges
      else
        (let affected_ranges =
               fold (\<lambda>endpoint ar. fold set_insert (get_ranges strategy endpoint s) ar)
                 (leaving_endpoints s) [];
             metadata = clone_only_token_map True s
         in fold (\<lambda>r npr.
                    (let t = (case range_end r of None \<Rightarrow> maximum_token | Some b \<Rightarrow> bound_value b);
                         current_endpoints = calculate_natural_endpoints strategy t metadata;
                         new_endpoints = calculate_natural_endpoints strategy t all_left_metadata
                     in npr @ map (\<lambda>ep. (r, ep))
                                (filter (\<lambda>ep. ep \<notin> set current_endpoints) new_endpoints)))
              affected_ranges new_pending_ranges))"

text \<open>
  The loop of \<^verbatim>\<open>calculate_pending_ranges_for_bootstrap\<close> over the bootstrapping
  endpoints and their tokens.
\<close>

fun bootstrap_each ::
  "('e \<times> ('t::linorder) list) list \<Rightarrow> ('t, 'e) replication_strategy \<Rightarrow> ('e \<Rightarrow> endpoint_dc_rack)
     \<Rightarrow> ('t, 'e) world \<Rightarrow> ('t, 'e) pending_ranges
     \<Rightarrow> error + (('t, 'e) world \<times> ('t, 'e) pending_ranges)" where
  "bootstrap_each [] strategy get_dc_rack all_left npr = Inr (all_left, npr)"
| "bootstrap_each (x # xs) strategy get_dc_rack all_left npr =
     (case update_normal_tokens (snd x) (fst x)
             (fst all_left,
              update_topology (fst x) (get_dc_rack (fst x)) (Some joining) (snd all_left)) of
        Inl e \<Rightarrow> Inl e
      | Inr w \<Rightarrow>
          bootstrap_each xs strategy get_dc_rack (impl_remove_endpoint (fst x) w)
            (npr @ map (\<lambda>r. (r, fst x)) (get_ranges strategy (fst x) (snd w))))"

definition calculate_pending_ranges_for_bootstrap ::
  "('t::linorder, 'e) replication_strategy \<Rightarrow> ('t, 'e) token_metadata_impl
     \<Rightarrow> ('t, 'e) pending_ranges \<Rightarrow> ('t, 'e) world \<Rightarrow> ('e \<Rightarrow> endpoint_dc_rack)
     \<Rightarrow> error + (('t, 'e) world \<times> ('t, 'e) pending_ranges)" where
  "calculate_pending_ranges_for_bootstrap strategy s new_pending_ranges all_left_metadata get_dc_rack =
     (let bootstrap_addresses = map (\<lambda>x. (snd x, fst x)) (bootstrap_tokens s);
          tmp = fold (\<lambda>x m. AList.update (fst x)
                               (set_insert (snd x)
                                  (case map_of m (fst x) of None \<Rightarrow> [] | Some ts \<Rightarrow> ts)) m)
                  bootstrap_addresses []
      in case bootstrap_each tmp strategy get_dc_rack all_left_metadata new_pending_ranges of
           Inl e \<Rightarrow> Inl e
         | Inr r \<Rightarrow> Inr ((fst (fst r), sort_tokens (snd (fst r))), snd r))"

text \<open>
  \<^verbatim>\<open>update_pending_ranges\<close>. The result is the static counter (the removals on the
  auxiliary clone advance it) and the object with its new pending ranges.
\<close>

definition update_pending_ranges ::
  "'t \<Rightarrow> 't \<Rightarrow> ('t::linorder, 'e) replication_strategy \<Rightarrow> string \<Rightarrow> ('e \<Rightarrow> endpoint_dc_rack)
     \<Rightarrow> ('t, 'e) world \<Rightarrow> error + ('t, 'e) world" where
  "update_pending_ranges minimum_token maximum_token strategy keyspace_name get_dc_rack w =
     (let s = snd w in
      if bootstrap_tokens s = [] \<and> leaving_endpoints s = [] \<and> replacing_endpoints s = [] then
        (case set_pending_ranges minimum_token maximum_token keyspace_name [] s of
           Inl e \<Rightarrow> Inl e
         | Inr s1 \<Rightarrow> Inr (fst w, s1))
      else
        (let npr1 = calculate_pending_ranges_for_replacing strategy s [];
             all_left_metadata = clone_after_all_left w;
             npr2 = calculate_pending_ranges_for_leaving maximum_token strategy s npr1
                      (snd all_left_metadata)
         in case calculate_pending_ranges_for_bootstrap strategy s npr2 all_left_metadata get_dc_rack of
              Inl e \<Rightarrow> Inl e
            | Inr r \<Rightarrow>
                (case set_pending_ranges minimum_token maximum_token keyspace_name (snd r) s of
                   Inl e \<Rightarrow> Inl e
                 | Inr s1 \<Rightarrow> Inr (fst (fst r), s1))))"

text \<open>\<^verbatim>\<open>range<dht::token>(token)\<close>: the range of the single token.\<close>

definition singular_range :: "'t \<Rightarrow> 't range" where
  "singular_range t =
     \<lparr>range_start = Some \<lparr>bound_value = t, is_inclusive = True\<rparr>,
      range_end = Some \<lparr>bound_value = t, is_inclusive = True\<rparr>\<rparr>"

definition pending_endpoints_for ::
  "'t \<Rightarrow> 't \<Rightarrow> 't \<Rightarrow> string \<Rightarrow> ('t::linorder, 'e) token_metadata_impl \<Rightarrow> 'e list" where
  "pending_endpoints_for minimum_token maximum_token token keyspace_name s =
     (case map_of (pending_ranges_interval_map s) keyspace_name of
        None \<Rightarrow> []
      | Some ks_map \<Rightarrow>
          if ks_map = [] then []
          else (case interval_map_find ks_map
                       (range_to_interval minimum_token maximum_token (singular_range token)) of
                  None \<Rightarrow> []
                | Some eps \<Rightarrow> eps))"

subsection \<open>The shared publisher: \<^verbatim>\<open>shared_token_metadata\<close>\<close>

record ('t, 'e) shared_token_metadata =
  shared :: "('t, 'e) token_metadata_impl"

text \<open>\<^verbatim>\<open>shared_token_metadata::set\<close>; the versions are compared as signed numbers.\<close>

definition shared_token_metadata_set ::
  "('t, 'e) token_metadata_impl \<Rightarrow> ('t, 'e) shared_token_metadata
     \<Rightarrow> error + ('t, 'e) shared_token_metadata" where
  "shared_token_metadata_set tmptr stm =
     (if sint (get_ring_version (shared stm)) \<ge> sint (get_ring_version tmptr)
      then Inl internal_error
      else Inr (stm\<lparr>shared := tmptr\<rparr>))"

text \<open>A sequence of calls of \<^verbatim>\<open>set\<close>, which ends at the first one that fails.\<close>

fun set_all ::
  "('t, 'e) token_metadata_impl list \<Rightarrow> ('t, 'e) shared_token_metadata
     \<Rightarrow> error + ('t, 'e) shared_token_metadata" where
  "set_all [] stm = Inr stm"
| "set_all (tmptr # rest) stm =
     (case shared_token_metadata_set tmptr stm of
        Inl e \<Rightarrow> Inl e
      | Inr stm1 \<Rightarrow> set_all rest stm1)"

text \<open>
  \<^verbatim>\<open>mutate_token_metadata\<close>. The callback works on the clone and the static counter; it
  returns the counter and either what it threw or the mutated clone. The result is what
  the call threw, if anything, with the counter and the publisher as the call leaves them.
\<close>

definition mutate_token_metadata ::
  "(('t, 'e) world \<Rightarrow> 64 word \<times> (error + ('t, 'e) token_metadata_impl))
     \<Rightarrow> 64 word \<times> ('t, 'e) shared_token_metadata
     \<Rightarrow> error option \<times> 64 word \<times> ('t, 'e) shared_token_metadata" where
  "mutate_token_metadata func st =
     (let stm = snd st;
          tm = invalidate_cached_rings (fst st, clone_async (shared stm));
          r = func tm
      in case snd r of
           Inl e \<Rightarrow> (Some e, fst r, stm)
         | Inr tm1 \<Rightarrow>
             (case shared_token_metadata_set tm1 stm of
                Inl e \<Rightarrow> (Some e, fst r, stm)
              | Inr stm1 \<Rightarrow> (None, fst r, stm1)))"

subsection \<open>The public mutations\<close>

text \<open>
  The mutating operations of \<^verbatim>\<open>token_metadata\<close>, as data, and their effect on the static
  counter and the snapshot under construction.
\<close>

datatype ('t, 'e) mutation =
    Update_topology 'e endpoint_dc_rack "node_state option"
  | Update_normal_tokens "'t list" 'e
  | Remove_endpoint 'e
  | Add_bootstrap_tokens "'t list" 'e
  | Remove_bootstrap_tokens "'t list"
  | Add_leaving_endpoint 'e
  | Del_leaving_endpoint 'e
  | Add_replacing_endpoint 'e 'e
  | Del_replacing_endpoint 'e

fun apply_mutation :: "('t::linorder, 'e) mutation \<Rightarrow> ('t, 'e) world \<Rightarrow> error + ('t, 'e) world" where
  "apply_mutation (Update_topology ep dr opt_st) w = Inr (fst w, update_topology ep dr opt_st (snd w))"
| "apply_mutation (Update_normal_tokens tokens endpoint) w = update_normal_tokens tokens endpoint w"
| "apply_mutation (Remove_endpoint endpoint) w = Inr (remove_endpoint endpoint w)"
| "apply_mutation (Add_bootstrap_tokens tokens endpoint) w =
     (case add_bootstrap_tokens tokens endpoint (snd w) of
        Inl e \<Rightarrow> Inl e
      | Inr s \<Rightarrow> Inr (fst w, s))"
| "apply_mutation (Remove_bootstrap_tokens tokens) w = Inr (fst w, remove_bootstrap_tokens tokens (snd w))"
| "apply_mutation (Add_leaving_endpoint endpoint) w = Inr (fst w, add_leaving_endpoint endpoint (snd w))"
| "apply_mutation (Del_leaving_endpoint endpoint) w = Inr (fst w, del_leaving_endpoint endpoint (snd w))"
| "apply_mutation (Add_replacing_endpoint existing_node replacing_node) w =
     Inr (fst w, add_replacing_endpoint existing_node replacing_node (snd w))"
| "apply_mutation (Del_replacing_endpoint existing_node) w =
     Inr (fst w, del_replacing_endpoint existing_node (snd w))"

fun apply_mutations ::
  "('t::linorder, 'e) mutation list \<Rightarrow> ('t, 'e) world \<Rightarrow> error + ('t, 'e) world" where
  "apply_mutations [] w = Inr w"
| "apply_mutations (m # ms) w =
     (case apply_mutation m w of
        Inl e \<Rightarrow> Inl e
      | Inr w1 \<Rightarrow> apply_mutations ms w1)"

text \<open>
  What the list representation of the containers assumes, and what the binary search
  of \<^verbatim>\<open>first_token_index\<close> needs: maps have distinct keys and the token vector is sorted.
\<close>

definition well_formed :: "('t::linorder, 'e) token_metadata_impl \<Rightarrow> bool" where
  "well_formed s =
     (distinct (map fst (token_to_endpoint_map s))
      \<and> distinct (map fst (bootstrap_tokens s))
      \<and> sorted (sorted_tokens s))"

subsection \<open>Example snapshots\<close>

text \<open>A topology of one endpoint and no tokens.\<close>

definition one_node :: "(int, nat) token_metadata_impl" where
  "one_node =
     update_topology 1 \<lparr>dc = ''dc1'', rack = ''r1''\<rparr> (Some normal) new_token_metadata_impl"

text \<open>Endpoints 1, 2 and 3 with the tokens 10, 20 and 30.\<close>

definition normal_node :: node where
  "normal_node = \<lparr>node_dc_rack = \<lparr>dc = ''dc1'', rack = ''r1''\<rparr>, node_state = Some normal\<rparr>"

definition three_node_ring :: "(int, nat) token_metadata_impl" where
  "three_node_ring =
     new_token_metadata_impl
       \<lparr>token_to_endpoint_map := [(10, 1), (20, 2), (30, 3)],
        normal_token_owners := [1, 2, 3],
        sorted_tokens := [10, 20, 30],
        topology := [(1, normal_node), (2, normal_node), (3, normal_node)],
        ring_version := 3\<rparr>"

text \<open>The ring above while endpoint 4 bootstraps with token 12 and endpoint 5 with 17.\<close>

definition bootstrapping_ring :: "(int, nat) token_metadata_impl" where
  "bootstrapping_ring = three_node_ring\<lparr>bootstrap_tokens := [(12, 4), (17, 5)]\<rparr>"

text \<open>
  The mutations that give endpoint 1 the tokens 10 and 20 and then the token 10 alone.
\<close>

definition shrinking_mutations :: "(int, nat) mutation list" where
  "shrinking_mutations =
     [Update_topology 1 \<lparr>dc = ''dc1'', rack = ''r1''\<rparr> (Some normal),
      Update_normal_tokens [10, 20] 1,
      Update_normal_tokens [10] 1]"

text \<open>An empty snapshot of a given ring version.\<close>

definition snapshot_of_version :: "64 word \<Rightarrow> (int, nat) token_metadata_impl" where
  "snapshot_of_version v = new_token_metadata_impl\<lparr>ring_version := v\<rparr>"

text \<open>A strategy that replicates nothing, and a callback that throws.\<close>

definition no_replication :: "(int, nat) replication_strategy" where
  "no_replication = \<lparr>get_ranges = (\<lambda>ep s. []), calculate_natural_endpoints = (\<lambda>t s. [])\<rparr>"

definition failing_callback ::
  "(int, nat) world \<Rightarrow> 64 word \<times> (error + (int, nat) token_metadata_impl)" where
  "failing_callback w = (fst w, Inl (other_exception ''callback failed''))"

section \<open>Properties\<close>

lemmas bounds_defs =
  static_open_def static_left_open_def static_right_open_def static_closed_def
  interval_open_def interval_left_open_def interval_right_open_def interval_closed_def

lemma clone_async_id: "clone_async s = s"
  by (simp add: clone_async_def clone_only_token_map_def new_token_metadata_impl_def)

subsection \<open>Publication\<close>

lemma set_all_increasing:
  "set_all tms stm = Inr stm' \<Longrightarrow>
     sorted_wrt (\<lambda>a b. sint a < sint b) (map get_ring_version (shared stm # tms))"
proof (induction tms arbitrary: stm)
  case Nil
  then show ?case by simp
next
  case (Cons tm rest)
  from Cons.prems obtain stm1 where
    s1: "shared_token_metadata_set tm stm = Inr stm1" and r: "set_all rest stm1 = Inr stm'"
    by (auto split: sum.splits)
  from s1 have sh: "shared stm1 = tm"
    and lt: "sint (get_ring_version (shared stm)) < sint (get_ring_version tm)"
    by (auto simp add: shared_token_metadata_set_def split: if_splits)
  from Cons.IH [OF r] sh
  have rest: "sorted_wrt (\<lambda>a b. sint a < sint b) (get_ring_version tm # map get_ring_version rest)"
    by simp
  then have "\<forall>v \<in> set (map get_ring_version rest). sint (get_ring_version tm) < sint v"
    by simp
  with lt have "\<forall>v \<in> set (map get_ring_version rest). sint (get_ring_version (shared stm)) < sint v"
    by fastforce
  with lt rest show ?case by simp
qed

text \<open>
  Claim C1. \<^verbatim>\<open>shared_token_metadata::set\<close> fails with an internal error whenever the
  candidate's ring version is less than or equal to the published one; a call that
  installs the candidate publishes a strictly greater version; and along every sequence
  of snapshots installed one after the other the published versions, starting from the
  one published before, are strictly increasing.
\<close>

theorem set_strictly_increasing:
  "(sint (get_ring_version tmptr) \<le> sint (get_ring_version (shared stm))
      \<longrightarrow> shared_token_metadata_set tmptr stm = Inl internal_error)
   \<and> (shared_token_metadata_set tmptr stm = Inr stm1
      \<longrightarrow> shared stm1 = tmptr
          \<and> sint (get_ring_version (shared stm)) < sint (get_ring_version (shared stm1)))
   \<and> (set_all tms stm = Inr stm2
      \<longrightarrow> sorted_wrt (\<lambda>a b. sint a < sint b) (map get_ring_version (shared stm # tms)))"
  using set_all_increasing [of tms stm stm2]
  by (auto simp add: shared_token_metadata_set_def split: if_splits)

theorem set_strictly_increasing_witness:
  "shared_token_metadata_set (snapshot_of_version 1) \<lparr>shared = snapshot_of_version 1\<rparr>
     = Inl internal_error
   \<and> sint (get_ring_version (snapshot_of_version 1)) < sint (get_ring_version (snapshot_of_version 2))
   \<and> sorted_wrt (\<lambda>a b. sint a < sint b)
       (map get_ring_version
          [snapshot_of_version 1, snapshot_of_version 2, snapshot_of_version 3])"
proof -
  have a: "sint (get_ring_version (snapshot_of_version 1))
             \<le> sint (get_ring_version (shared \<lparr>shared = snapshot_of_version 1\<rparr>))"
    by simp
  have b: "shared_token_metadata_set (snapshot_of_version 2) \<lparr>shared = snapshot_of_version 1\<rparr>
             = Inr \<lparr>shared = snapshot_of_version 2\<rparr>"
    by (simp add: shared_token_metadata_set_def get_ring_version_def snapshot_of_version_def)
  have c: "set_all [snapshot_of_version 2, snapshot_of_version 3] \<lparr>shared = snapshot_of_version 1\<rparr>
             = Inr \<lparr>shared = snapshot_of_version 3\<rparr>"
    by (simp add: shared_token_metadata_set_def get_ring_version_def snapshot_of_version_def)
  from a
    set_strictly_increasing [of "snapshot_of_version 1" "\<lparr>shared = snapshot_of_version 1\<rparr>"
      "\<lparr>shared = snapshot_of_version 1\<rparr>" "[]" "\<lparr>shared = snapshot_of_version 1\<rparr>"]
  have 1: "shared_token_metadata_set (snapshot_of_version 1) \<lparr>shared = snapshot_of_version 1\<rparr>
             = Inl internal_error"
    by blast
  from b c
    set_strictly_increasing [of "snapshot_of_version 2" "\<lparr>shared = snapshot_of_version 1\<rparr>"
      "\<lparr>shared = snapshot_of_version 2\<rparr>" "[snapshot_of_version 2, snapshot_of_version 3]"
      "\<lparr>shared = snapshot_of_version 3\<rparr>"]
  have 2: "sint (get_ring_version (snapshot_of_version 1)) < sint (get_ring_version (snapshot_of_version 2))
           \<and> sorted_wrt (\<lambda>a b. sint a < sint b)
               (map get_ring_version
                  [snapshot_of_version 1, snapshot_of_version 2, snapshot_of_version 3])"
    by simp
  from 1 2 show ?thesis by blast
qed

text \<open>
  Claim C2. If the callback given to \<^verbatim>\<open>mutate_token_metadata\<close> throws, the call throws
  the same exception and the published snapshot is the one published before: the clone
  the callback worked on is dropped.
\<close>

theorem mutate_token_metadata_failure:
  assumes "snd (func (invalidate_cached_rings (srv, clone_async (shared stm)))) = Inl e"
  shows "fst (mutate_token_metadata func (srv, stm)) = Some e
         \<and> snd (snd (mutate_token_metadata func (srv, stm))) = stm"
  using assms by (simp add: mutate_token_metadata_def Let_def)

theorem mutate_token_metadata_failure_witness:
  "fst (mutate_token_metadata failing_callback (0, \<lparr>shared = one_node\<rparr>))
     = Some (other_exception ''callback failed'')
   \<and> snd (snd (mutate_token_metadata failing_callback (0, \<lparr>shared = one_node\<rparr>)))
     = \<lparr>shared = one_node\<rparr>"
proof -
  have "snd (failing_callback (invalidate_cached_rings (0, clone_async (shared \<lparr>shared = one_node\<rparr>))))
          = Inl (other_exception ''callback failed'')"
    by (simp add: failing_callback_def)
  from this
    mutate_token_metadata_failure [of failing_callback 0 "\<lparr>shared = one_node\<rparr>"
      "other_exception ''callback failed''"]
  show ?thesis by blast
qed

subsection \<open>Normal tokens and the topology\<close>

text \<open>
  Claim C4, amended. For a non-empty token set, \<^verbatim>\<open>update_normal_tokens\<close> fails with an
  internal error whenever the endpoint is not in the topology; for an empty token set, or
  an endpoint that is in the topology, it does not fail.
\<close>

theorem update_normal_tokens_topology_check:
  "(tokens \<noteq> [] \<and> \<not> has_endpoint (topology (snd w)) endpoint
      \<longrightarrow> update_normal_tokens tokens endpoint w = Inl internal_error)
   \<and> (tokens = [] \<or> has_endpoint (topology (snd w)) endpoint
      \<longrightarrow> (\<exists>w'. update_normal_tokens tokens endpoint w = Inr w'))"
  by (auto simp add: update_normal_tokens_def Let_def)

theorem update_normal_tokens_topology_check_witness:
  "update_normal_tokens [10] 2 (0, one_node) = Inl internal_error
   \<and> (\<exists>w'. update_normal_tokens [10] 1 (0, one_node) = Inr w')"
proof -
  have a: "[10::int] \<noteq> [] \<and> \<not> has_endpoint (topology (snd (0::64 word, one_node))) 2"
    by (simp add: one_node_def update_topology_def add_or_update_endpoint_def
        new_token_metadata_impl_def has_endpoint_def)
  have b: "[10::int] = [] \<or> has_endpoint (topology (snd (0::64 word, one_node))) 1"
    by (simp add: one_node_def update_topology_def add_or_update_endpoint_def
        new_token_metadata_impl_def has_endpoint_def)
  from a b update_normal_tokens_topology_check [of "[10]" "(0, one_node)" 2]
    update_normal_tokens_topology_check [of "[10]" "(0, one_node)" 1]
  show ?thesis by blast
qed

text \<open>
  The claim as stated fails for the empty token set: endpoint 7 is not in the topology of
  the empty snapshot, and the call does not fail.
\<close>

theorem update_normal_tokens_absent_counterexample:
  "\<not> has_endpoint (topology (new_token_metadata_impl :: (int, nat) token_metadata_impl)) 7
   \<and> update_normal_tokens [] 7 (0, new_token_metadata_impl :: (int, nat) token_metadata_impl)
       \<noteq> Inl internal_error"
  by (simp add: update_normal_tokens_def has_endpoint_def new_token_metadata_impl_def)

text \<open>
  Claim C10. For every endpoint, in the topology or not, \<^verbatim>\<open>update_normal_tokens\<close> of the
  empty token set succeeds and changes nothing: the token map, the bootstrap and leaving
  sets, the ring version and the static counter are the ones before the call.
\<close>

theorem update_normal_tokens_empty: "update_normal_tokens [] endpoint w = Inr w"
  by (simp add: update_normal_tokens_def)

theorem update_normal_tokens_empty_witness:
  "\<not> has_endpoint (topology bootstrapping_ring) 4
   \<and> update_normal_tokens [] 4 (3, bootstrapping_ring) = Inr (3, bootstrapping_ring)"
  using update_normal_tokens_empty [of 4 "(3, bootstrapping_ring)"]
  by (simp add: has_endpoint_def bootstrapping_ring_def three_node_ring_def
      new_token_metadata_impl_def)

subsection \<open>The first token\<close>

lemma lower_bound_all_less:
  "\<forall>x \<in> set xs. x < v \<Longrightarrow> lower_bound xs v = length xs"
  by (simp add: lower_bound_def takeWhile_eq_all_conv [THEN iffD2])

lemma lower_bound_least:
  "sorted xs \<Longrightarrow> \<exists>x \<in> set xs. v \<le> x \<Longrightarrow>
     lower_bound xs v < length xs \<and> xs ! lower_bound xs v = Min {x \<in> set xs. v \<le> x}"
proof (induction xs)
  case Nil
  then show ?case by simp
next
  case (Cons a rest)
  show ?case
  proof (cases "a < v")
    case True
    with Cons.prems have ex: "\<exists>x \<in> set rest. v \<le> x" by auto
    from True have eq: "{x \<in> set (a # rest). v \<le> x} = {x \<in> set rest. v \<le> x}" by auto
    from Cons.prems have "sorted rest" by simp
    from Cons.IH [OF this ex] True show ?thesis
      unfolding eq by (simp add: lower_bound_def)
  next
    case False
    then have va: "v \<le> a" by simp
    have "Min {x \<in> set (a # rest). v \<le> x} = a"
    proof (rule Min_eqI)
      show "finite {x \<in> set (a # rest). v \<le> x}" by simp
      show "a \<in> {x \<in> set (a # rest). v \<le> x}" using va by simp
      fix y assume "y \<in> {x \<in> set (a # rest). v \<le> x}"
      with Cons.prems(1) show "a \<le> y" by auto
    qed
    with False show ?thesis by (simp add: lower_bound_def)
  qed
qed

text \<open>
  Claim C5. On a ring whose token vector is not empty, \<^verbatim>\<open>first_token(start)\<close> is the
  least token of the vector that is greater than or equal to \<open>start\<close>, and the first
  token of the vector when \<open>start\<close> exceeds every token; on an empty token vector it
  fails with the empty-ring error. The token vector is sorted, as \<^verbatim>\<open>std::lower_bound\<close>
  requires and as every snapshot built by the public mutations has it.
\<close>

theorem first_token_spec:
  assumes "sorted (sorted_tokens s)"
  shows "(sorted_tokens s = [] \<longrightarrow> first_token s start = Inl empty_ring)
   \<and> (sorted_tokens s \<noteq> [] \<and> (\<exists>x \<in> set (sorted_tokens s). start \<le> x)
        \<longrightarrow> first_token s start = Inr (Min {x \<in> set (sorted_tokens s). start \<le> x}))
   \<and> (sorted_tokens s \<noteq> [] \<and> (\<forall>x \<in> set (sorted_tokens s). x < start)
        \<longrightarrow> first_token s start = Inr (sorted_tokens s ! 0))"
proof (intro conjI impI)
  assume "sorted_tokens s = []"
  then show "first_token s start = Inl empty_ring"
    by (simp add: first_token_def first_token_index_def)
next
  assume a: "sorted_tokens s \<noteq> [] \<and> (\<exists>x \<in> set (sorted_tokens s). start \<le> x)"
  with lower_bound_least [OF assms, of start]
  show "first_token s start = Inr (Min {x \<in> set (sorted_tokens s). start \<le> x})"
    by (simp add: first_token_def first_token_index_def Let_def)
next
  assume a: "sorted_tokens s \<noteq> [] \<and> (\<forall>x \<in> set (sorted_tokens s). x < start)"
  with lower_bound_all_less [of "sorted_tokens s" start]
  show "first_token s start = Inr (sorted_tokens s ! 0)"
    by (simp add: first_token_def first_token_index_def Let_def)
qed

theorem first_token_spec_witness:
  "first_token (new_token_metadata_impl :: (int, nat) token_metadata_impl) 5 = Inl empty_ring
   \<and> first_token three_node_ring 15 = Inr 20
   \<and> first_token three_node_ring 35 = Inr 10"
proof -
  have e: "sorted_tokens (new_token_metadata_impl :: (int, nat) token_metadata_impl) = []"
    by (simp add: new_token_metadata_impl_def)
  have st: "sorted_tokens three_node_ring = [10, 20, 30]"
    by (simp add: three_node_ring_def)
  have m: "Min {x \<in> set [10, 20, 30 :: int]. 15 \<le> x} = 20"
  proof (rule Min_eqI)
    show "finite {x \<in> set [10, 20, 30 :: int]. 15 \<le> x}" by simp
  qed auto
  from e first_token_spec [of "new_token_metadata_impl :: (int, nat) token_metadata_impl" 5]
  have 1: "first_token (new_token_metadata_impl :: (int, nat) token_metadata_impl) 5 = Inl empty_ring"
    by simp
  from st m first_token_spec [of three_node_ring 15]
  have 2: "first_token three_node_ring 15 = Inr 20" by simp
  from st first_token_spec [of three_node_ring 35]
  have 3: "first_token three_node_ring 35 = Inr 10" by simp
  from 1 2 3 show ?thesis by simp
qed

subsection \<open>Pending endpoints\<close>

text \<open>
  Claim C6. \<^verbatim>\<open>pending_endpoints_for\<close> returns no endpoint when the keyspace has no entry
  in the pending-ranges map or its interval map is empty; and while the bootstrap, leaving
  and replacing sets are all empty, \<^verbatim>\<open>update_pending_ranges\<close> for a keyspace succeeds and
  afterwards \<^verbatim>\<open>pending_endpoints_for\<close> returns no endpoint for any token of that keyspace.
\<close>

theorem pending_endpoints_for_empty:
  "(map_of (pending_ranges_interval_map s) ks = None
      \<or> map_of (pending_ranges_interval_map s) ks = Some []
      \<longrightarrow> pending_endpoints_for mn mx t ks s = [])
   \<and> (bootstrap_tokens (snd w) = [] \<and> leaving_endpoints (snd w) = []
        \<and> replacing_endpoints (snd w) = []
      \<longrightarrow> (\<exists>s1. update_pending_ranges mn mx strategy ks get_dc_rack w = Inr (fst w, s1)
                \<and> (\<forall>t1. pending_endpoints_for mn mx t1 ks s1 = [])))"
  by (auto simp add: pending_endpoints_for_def update_pending_ranges_def set_pending_ranges_def
      Let_def delete_conv)

theorem pending_endpoints_for_empty_witness:
  "pending_endpoints_for 0 100 15 ''ks'' three_node_ring = []
   \<and> (\<exists>s1. update_pending_ranges 0 100 no_replication ''ks''
               (\<lambda>ep. \<lparr>dc = ''dc1'', rack = ''r1''\<rparr>) (3, three_node_ring) = Inr (3, s1)
           \<and> (\<forall>t1. pending_endpoints_for 0 100 t1 ''ks'' s1 = []))"
proof -
  have a: "map_of (pending_ranges_interval_map three_node_ring) ''ks'' = None
           \<or> map_of (pending_ranges_interval_map three_node_ring) ''ks'' = Some []"
    by (simp add: three_node_ring_def new_token_metadata_impl_def)
  have b: "bootstrap_tokens (snd (3::64 word, three_node_ring)) = []
           \<and> leaving_endpoints (snd (3::64 word, three_node_ring)) = []
           \<and> replacing_endpoints (snd (3::64 word, three_node_ring)) = []"
    by (simp add: three_node_ring_def new_token_metadata_impl_def)
  from a b
    pending_endpoints_for_empty [of three_node_ring "''ks''" 0 100 15 "(3, three_node_ring)"
      no_replication "\<lambda>ep. \<lparr>dc = ''dc1'', rack = ''r1''\<rparr>"]
  show ?thesis by simp
qed

subsection \<open>Ranges and intervals\<close>

text \<open>
  Claim C7, amended. \<^verbatim>\<open>interval_to_range(range_to_interval(r))\<close> never fails, keeps every
  bound that \<open>r\<close> has, with its value and its openness, and gives an unbounded side the
  exclusive bound \<^verbatim>\<open>minimum_token\<close> (start) or \<^verbatim>\<open>maximum_token\<close> (end); so it is \<open>r\<close>
  for every range that is bounded on both sides, whatever the openness of the bounds.
\<close>

theorem interval_round_trip:
  "interval_to_range (range_to_interval minimum_token maximum_token r) =
     Inr \<lparr>range_start = Some (case range_start r of
                                None \<Rightarrow> \<lparr>bound_value = minimum_token, is_inclusive = False\<rparr>
                              | Some b \<Rightarrow> b),
          range_end = Some (case range_end r of
                              None \<Rightarrow> \<lparr>bound_value = maximum_token, is_inclusive = False\<rparr>
                            | Some b \<Rightarrow> b)\<rparr>
   \<and> (range_start r \<noteq> None \<and> range_end r \<noteq> None
        \<longrightarrow> interval_to_range (range_to_interval minimum_token maximum_token r) = Inr r)"
  by (cases r; cases "range_start r"; cases "range_end r")
     (auto simp add: range_to_interval_def interval_to_range_def bounds_defs)

theorem interval_round_trip_witness:
  "interval_to_range (range_to_interval (0::int) 100
      \<lparr>range_start = Some \<lparr>bound_value = 3, is_inclusive = True\<rparr>,
       range_end = Some \<lparr>bound_value = 8, is_inclusive = False\<rparr>\<rparr>)
   = Inr \<lparr>range_start = Some \<lparr>bound_value = 3, is_inclusive = True\<rparr>,
          range_end = Some \<lparr>bound_value = 8, is_inclusive = False\<rparr>\<rparr>"
  using interval_round_trip [of "0::int" 100
      "\<lparr>range_start = Some \<lparr>bound_value = 3, is_inclusive = True\<rparr>,
        range_end = Some \<lparr>bound_value = 8, is_inclusive = False\<rparr>\<rparr>"]
  by simp

text \<open>
  The claim as stated fails on an unbounded side: the range without bounds comes back as
  the open range from the minimum to the maximum token.
\<close>

theorem interval_round_trip_unbounded_counterexample:
  "interval_to_range (range_to_interval (0::int) 100 \<lparr>range_start = None, range_end = None\<rparr>)
     \<noteq> Inr \<lparr>range_start = None, range_end = None\<rparr>"
  by (simp add: range_to_interval_def interval_to_range_def bounds_defs)

subsection \<open>Bootstrap tokens\<close>

lemma bootstrap_token_collision_iff:
  "bootstrap_token_collision tokens endpoint bs tte =
     (\<exists>t \<in> set tokens. \<exists>other. other \<noteq> endpoint
        \<and> (map_of bs t = Some other \<or> map_of tte t = Some other))"
  by (induction tokens) (auto split: option.splits)

lemma map_of_fold_update:
  "map_of (fold (\<lambda>t bs. AList.update t endpoint bs) tokens base) t =
     (if t \<in> set tokens then Some endpoint else map_of base t)"
  by (induction tokens arbitrary: base) (auto simp add: update_conv')

text \<open>
  Claim C9. \<^verbatim>\<open>add_bootstrap_tokens(T, e)\<close> fails with a token collision if some token of
  \<open>T\<close> is a bootstrap token of another endpoint or a normal token of another endpoint;
  otherwise it succeeds, changes only the bootstrap map, and the new bootstrap map is the
  old one without the entries of \<open>e\<close>, with every token of \<open>T\<close> mapped to \<open>e\<close>.
\<close>

theorem add_bootstrap_tokens_spec:
  "((\<exists>t \<in> set tokens. \<exists>other. other \<noteq> endpoint \<and>
        (map_of (bootstrap_tokens s) t = Some other
         \<or> map_of (token_to_endpoint_map s) t = Some other))
      \<longrightarrow> add_bootstrap_tokens tokens endpoint s = Inl token_collision)
   \<and> (\<not> (\<exists>t \<in> set tokens. \<exists>other. other \<noteq> endpoint \<and>
        (map_of (bootstrap_tokens s) t = Some other
         \<or> map_of (token_to_endpoint_map s) t = Some other))
      \<longrightarrow> (\<exists>bs. add_bootstrap_tokens tokens endpoint s = Inr (s\<lparr>bootstrap_tokens := bs\<rparr>)
             \<and> (\<forall>t. map_of bs t =
                    (if t \<in> set tokens then Some endpoint
                     else map_of (filter (\<lambda>n. snd n \<noteq> endpoint) (bootstrap_tokens s)) t))))"
proof (intro conjI impI)
  assume "\<exists>t \<in> set tokens. \<exists>other. other \<noteq> endpoint \<and>
        (map_of (bootstrap_tokens s) t = Some other
         \<or> map_of (token_to_endpoint_map s) t = Some other)"
  then show "add_bootstrap_tokens tokens endpoint s = Inl token_collision"
    by (simp add: add_bootstrap_tokens_def bootstrap_token_collision_iff)
next
  let ?bs = "fold (\<lambda>t bs. AList.update t endpoint bs) tokens
               (filter (\<lambda>n. snd n \<noteq> endpoint) (bootstrap_tokens s))"
  assume "\<not> (\<exists>t \<in> set tokens. \<exists>other. other \<noteq> endpoint \<and>
        (map_of (bootstrap_tokens s) t = Some other
         \<or> map_of (token_to_endpoint_map s) t = Some other))"
  then have "add_bootstrap_tokens tokens endpoint s = Inr (s\<lparr>bootstrap_tokens := ?bs\<rparr>)"
    by (simp add: add_bootstrap_tokens_def bootstrap_token_collision_iff)
  moreover have "\<forall>t. map_of ?bs t =
                    (if t \<in> set tokens then Some endpoint
                     else map_of (filter (\<lambda>n. snd n \<noteq> endpoint) (bootstrap_tokens s)) t)"
    by (simp add: map_of_fold_update)
  ultimately show "\<exists>bs. add_bootstrap_tokens tokens endpoint s = Inr (s\<lparr>bootstrap_tokens := bs\<rparr>)
             \<and> (\<forall>t. map_of bs t =
                    (if t \<in> set tokens then Some endpoint
                     else map_of (filter (\<lambda>n. snd n \<noteq> endpoint) (bootstrap_tokens s)) t))"
    by blast
qed

theorem add_bootstrap_tokens_spec_witness:
  "add_bootstrap_tokens [15, 17] 4 bootstrapping_ring = Inl token_collision
   \<and> add_bootstrap_tokens [15, 20] 4 bootstrapping_ring = Inl token_collision
   \<and> (\<exists>bs. add_bootstrap_tokens [15, 25] 4 bootstrapping_ring
             = Inr (bootstrapping_ring\<lparr>bootstrap_tokens := bs\<rparr>)
          \<and> map_of bs 12 = None \<and> map_of bs 15 = Some 4 \<and> map_of bs 17 = Some 5
          \<and> map_of bs 25 = Some 4)"
proof -
  have bt: "bootstrap_tokens bootstrapping_ring = [(12, 4), (17, 5)]"
    and tte: "token_to_endpoint_map bootstrapping_ring = [(10, 1), (20, 2), (30, 3)]"
    by (simp_all add: bootstrapping_ring_def three_node_ring_def new_token_metadata_impl_def)
  have a: "\<exists>t \<in> set [15, 17]. \<exists>other. other \<noteq> 4 \<and>
        (map_of (bootstrap_tokens bootstrapping_ring) t = Some other
         \<or> map_of (token_to_endpoint_map bootstrapping_ring) t = Some other)"
    unfolding bt tte by simp
  have b: "\<exists>t \<in> set [15, 20]. \<exists>other. other \<noteq> 4 \<and>
        (map_of (bootstrap_tokens bootstrapping_ring) t = Some other
         \<or> map_of (token_to_endpoint_map bootstrapping_ring) t = Some other)"
    unfolding bt tte by simp
  have c: "\<not> (\<exists>t \<in> set [15, 25]. \<exists>other. other \<noteq> 4 \<and>
        (map_of (bootstrap_tokens bootstrapping_ring) t = Some other
         \<or> map_of (token_to_endpoint_map bootstrapping_ring) t = Some other))"
    unfolding bt tte by simp
  from a add_bootstrap_tokens_spec [of "[15, 17]" 4 bootstrapping_ring]
  have 1: "add_bootstrap_tokens [15, 17] 4 bootstrapping_ring = Inl token_collision"
    by blast
  from b add_bootstrap_tokens_spec [of "[15, 20]" 4 bootstrapping_ring]
  have 2: "add_bootstrap_tokens [15, 20] 4 bootstrapping_ring = Inl token_collision"
    by blast
  from c add_bootstrap_tokens_spec [of "[15, 25]" 4 bootstrapping_ring]
  obtain bs where r: "add_bootstrap_tokens [15, 25] 4 bootstrapping_ring
             = Inr (bootstrapping_ring\<lparr>bootstrap_tokens := bs\<rparr>)"
    and m: "\<forall>t. map_of bs t =
              (if t \<in> set [15, 25] then Some 4
               else map_of (filter (\<lambda>n. snd n \<noteq> 4) (bootstrap_tokens bootstrapping_ring)) t)"
    by blast
  from m have "map_of bs 12 = None \<and> map_of bs 15 = Some 4 \<and> map_of bs 17 = Some 5
          \<and> map_of bs 25 = Some 4"
    unfolding bt by simp
  with r 1 2 show ?thesis by blast
qed

subsection \<open>Well-formed snapshots\<close>

text \<open>
  Phase 1 on a map with distinct keys, in closed form, and what the two phases leave: the
  endpoint owns exactly the given tokens.
\<close>

lemma erase_previous_tokens_distinct:
  "distinct (map fst m) \<Longrightarrow>
     erase_previous_tokens m tokens endpoint =
       (filter (\<lambda>p. snd p \<noteq> endpoint \<or> fst p \<in> set tokens) m,
        filter (\<lambda>t. (t, endpoint) \<notin> set m) tokens)"
proof (induction m arbitrary: tokens)
  case Nil
  then show ?case by simp
next
  case (Cons it rest)
  obtain a b where it: "it = (a, b)" by (cases it)
  from Cons.prems it have d: "distinct (map fst rest)" and na: "a \<notin> fst ` set rest"
    by auto
  show ?case
  proof (cases "b = endpoint \<and> a \<in> set tokens")
    case True
    have f1: "filter (\<lambda>p. snd p \<noteq> endpoint \<or> fst p \<in> set (removeAll a tokens)) rest
              = filter (\<lambda>p. snd p \<noteq> endpoint \<or> fst p \<in> set tokens) rest"
      using na by (intro filter_cong) (auto simp add: image_iff)
    have f2: "filter (\<lambda>t. (t, endpoint) \<notin> set rest) (removeAll a tokens)
              = filter (\<lambda>t. (t, endpoint) \<notin> set ((a, endpoint) # rest)) tokens"
      by (induction tokens) auto
    from True it Cons.IH [OF d, of "removeAll a tokens"] f1 f2 show ?thesis
      by (simp add: Let_def)
  next
    case False
    show ?thesis
    proof (cases "b = endpoint")
      case True
      with False have nt: "a \<notin> set tokens" by simp
      then have "filter (\<lambda>t. (t, endpoint) \<notin> set rest) tokens
              = filter (\<lambda>t. (t, endpoint) \<notin> set ((a, endpoint) # rest)) tokens"
        by (intro filter_cong) auto
      with True nt it Cons.IH [OF d, of tokens] show ?thesis by simp
    next
      case False
      with it Cons.IH [OF d, of tokens] show ?thesis by (simp add: Let_def)
    qed
  qed
qed

lemma map_of_insert_tokens:
  "map_of (fst (insert_tokens ts endpoint m b)) t =
     (if t \<in> set ts then Some endpoint else map_of m t)"
  by (induction ts arbitrary: m b) (auto simp add: update_conv' map_add_def split: option.splits)

lemma distinct_insert_tokens:
  "distinct (map fst m) \<Longrightarrow> distinct (map fst (fst (insert_tokens ts endpoint m b)))"
proof (induction ts arbitrary: m b)
  case Nil
  then show ?case by simp
next
  case (Cons t ts)
  show ?case
  proof (cases "map_of m t")
    case None
    then have "t \<notin> fst ` set m" by (simp add: map_of_eq_None_iff)
    with Cons.prems have "distinct (map fst (m @ [(t, endpoint)]))" by simp
    from Cons.IH [OF this] None show ?thesis by simp
  next
    case (Some prev)
    from Cons.prems have "distinct (map fst (AList.update t endpoint m))"
      by (simp add: distinct_update)
    with Cons.prems Some Cons.IH show ?thesis by simp
  qed
qed


lemma erase_previous_tokens_fixed:
  assumes d: "distinct (map fst m)"
    and keep: "\<forall>p \<in> set m. snd p \<noteq> endpoint \<or> fst p \<in> set tokens"
    and all: "\<forall>t \<in> set tokens. (t, endpoint) \<in> set m"
  shows "erase_previous_tokens m tokens endpoint = (m, [])"
proof -
  from keep have f1: "filter (\<lambda>p. snd p \<noteq> endpoint \<or> fst p \<in> set tokens) m = m"
    by (simp only: filter_id_conv)
  from all have f2: "filter (\<lambda>t. (t, endpoint) \<notin> set m) tokens = []"
    by (simp only: filter_empty_conv not_not)
  show ?thesis
    unfolding erase_previous_tokens_distinct [OF d] f1 f2 ..
qed

lemma insert_tokens_owned:
  assumes d1: "distinct (map fst m1)"
    and m1: "m1 = filter (\<lambda>p. snd p \<noteq> endpoint \<or> fst p \<in> set tokens) m"
    and tk: "tk = filter (\<lambda>t. (t, endpoint) \<notin> set m) tokens"
    and m2: "m2 = fst (insert_tokens tk endpoint m1 False)"
  shows "(\<forall>p \<in> set m2. snd p \<noteq> endpoint \<or> fst p \<in> set tokens)
         \<and> (\<forall>t \<in> set tokens. (t, endpoint) \<in> set m2)"
proof (intro conjI ballI)
  have d2: "distinct (map fst m2)"
    unfolding m2 using d1 by (rule distinct_insert_tokens)
  have mo: "\<And>t. map_of m2 t = (if t \<in> set tk then Some endpoint else map_of m1 t)"
    unfolding m2 by (rule map_of_insert_tokens)
  {
    fix p assume p: "p \<in> set m2"
    obtain t ep where pe: "p = (t, ep)" by (cases p)
    from p pe d2 have s: "map_of m2 t = Some ep" by simp
    show "snd p \<noteq> endpoint \<or> fst p \<in> set tokens"
    proof (cases "t \<in> set tk")
      case True
      then have "t \<in> set tokens" unfolding tk by simp
      with pe show ?thesis by simp
    next
      case False
      with s mo [of t] have "map_of m1 t = Some ep" by simp
      then have "(t, ep) \<in> set m1" by (rule map_of_SomeD)
      then have "ep \<noteq> endpoint \<or> t \<in> set tokens" unfolding m1 by simp
      with pe show ?thesis by simp
    qed
  }
  {
    fix t assume t: "t \<in> set tokens"
    have "map_of m2 t = Some endpoint"
    proof (cases "(t, endpoint) \<in> set m")
      case True
      with t have "(t, endpoint) \<in> set m1" unfolding m1 by simp
      with d1 have "map_of m1 t = Some endpoint" by simp
      with mo [of t] show ?thesis by simp
    next
      case False
      with t have "t \<in> set tk" unfolding tk by simp
      with mo [of t] show ?thesis by simp
    qed
    then show "(t, endpoint) \<in> set m2" by (rule map_of_SomeD)
  }
qed

lemma erase_previous_tokens_stable:
  assumes d: "distinct (map fst m)"
    and p1: "p1 = erase_previous_tokens m tokens endpoint"
    and m2: "m2 = fst (insert_tokens (snd p1) endpoint (fst p1) False)"
  shows "erase_previous_tokens m2 tokens endpoint = (m2, []) \<and> distinct (map fst m2)"
proof -
  have f: "fst p1 = filter (\<lambda>p. snd p \<noteq> endpoint \<or> fst p \<in> set tokens) m"
    and s: "snd p1 = filter (\<lambda>t. (t, endpoint) \<notin> set m) tokens"
    unfolding p1 erase_previous_tokens_distinct [OF d] by simp_all
  from d have d1: "distinct (map fst (fst p1))"
    unfolding f by (rule distinct_map_filter)
  have d2: "distinct (map fst m2)"
    unfolding m2 using d1 by (rule distinct_insert_tokens)
  from insert_tokens_owned [OF d1 f s m2]
  have "(\<forall>p \<in> set m2. snd p \<noteq> endpoint \<or> fst p \<in> set tokens)"
    and "(\<forall>t \<in> set tokens. (t, endpoint) \<in> set m2)" by blast+
  with d2 erase_previous_tokens_fixed [of m2 endpoint tokens] show ?thesis by blast
qed

lemma remove_by_value_idem:
  "remove_by_value (remove_by_value c v) v = remove_by_value c v"
  by (simp add: remove_by_value_def)

lemma update_normal_tokens_result:
  assumes ne: "tokens \<noteq> []"
    and u: "update_normal_tokens tokens endpoint w = Inr w1"
    and p1: "p1 = erase_previous_tokens (token_to_endpoint_map (snd w)) tokens endpoint"
    and p2: "p2 = insert_tokens (snd p1) endpoint (fst p1) False"
  shows "has_endpoint (topology (snd w)) endpoint"
    and "fst w1 = fst w + 1"
    and "token_to_endpoint_map (snd w1) = fst p2"
    and "bootstrap_tokens (snd w1) = remove_by_value (bootstrap_tokens (snd w)) endpoint"
    and "leaving_endpoints (snd w1) = removeAll endpoint (leaving_endpoints (snd w))"
    and "normal_token_owners (snd w1) = fold (\<lambda>p eps. set_insert (snd p) eps) (fst p2) []"
    and "topology (snd w1) = topology (snd w)"
    and "ring_version (snd w1) = fst w + 1"
    and "sorted_tokens (snd w1) =
           (if snd p2 then sort (map fst (fst p2)) else sorted_tokens (snd w))"
proof -
  from ne u show h: "has_endpoint (topology (snd w)) endpoint"
    by (auto simp add: update_normal_tokens_def split: if_splits)
  note defs = update_normal_tokens_def Let_def invalidate_cached_rings_def
    update_normal_token_owners_def sort_tokens_def
  from ne h u show "fst w1 = fst w + 1"
    by (auto simp add: defs split: if_splits)
  from ne h u show "token_to_endpoint_map (snd w1) = fst p2"
    unfolding p2 p1 by (auto simp add: defs split: if_splits)
  from ne h u show "bootstrap_tokens (snd w1) = remove_by_value (bootstrap_tokens (snd w)) endpoint"
    by (auto simp add: defs split: if_splits)
  from ne h u show "leaving_endpoints (snd w1) = removeAll endpoint (leaving_endpoints (snd w))"
    by (auto simp add: defs split: if_splits)
  from ne h u show "normal_token_owners (snd w1) = fold (\<lambda>p eps. set_insert (snd p) eps) (fst p2) []"
    unfolding p2 p1 by (auto simp add: defs split: if_splits)
  from ne h u show "topology (snd w1) = topology (snd w)"
    by (auto simp add: defs split: if_splits)
  from ne h u show "ring_version (snd w1) = fst w + 1"
    by (auto simp add: defs split: if_splits)
  from ne h u show "sorted_tokens (snd w1) =
           (if snd p2 then sort (map fst (fst p2)) else sorted_tokens (snd w))"
    unfolding p2 p1 by (auto simp add: defs split: if_splits)
qed

lemma distinct_fold_update:
  "distinct (map fst base) \<Longrightarrow>
     distinct (map fst (fold (\<lambda>t bs. AList.update t endpoint bs) tokens base))"
  by (induction tokens arbitrary: base) (simp_all add: distinct_update)

lemma distinct_fold_delete:
  "distinct (map fst base) \<Longrightarrow>
     distinct (map fst (fold (\<lambda>t bs. AList.delete t bs) tokens base))"
  by (induction tokens arbitrary: base) (simp_all add: distinct_delete)

text \<open>Every snapshot built by the public mutations from the empty one is well formed.\<close>

lemma well_formed_new: "well_formed new_token_metadata_impl"
  by (simp add: well_formed_def new_token_metadata_impl_def)

lemma well_formed_update_normal_tokens:
  assumes wf: "well_formed (snd w)"
    and u: "update_normal_tokens tokens endpoint w = Inr w1"
  shows "well_formed (snd w1)"
proof (cases "tokens = []")
  case True
  with u wf show ?thesis by (simp add: update_normal_tokens_def)
next
  case False
  define p1 where "p1 = erase_previous_tokens (token_to_endpoint_map (snd w)) tokens endpoint"
  define p2 where "p2 = insert_tokens (snd p1) endpoint (fst p1) False"
  note r = update_normal_tokens_result [OF False u p1_def p2_def]
  from wf have d: "distinct (map fst (token_to_endpoint_map (snd w)))"
    and db: "distinct (map fst (bootstrap_tokens (snd w)))"
    and so: "sorted (sorted_tokens (snd w))"
    by (simp_all add: well_formed_def)
  have m2: "fst p2 = fst (insert_tokens (snd p1) endpoint (fst p1) False)"
    unfolding p2_def ..
  from erase_previous_tokens_stable [OF d p1_def m2]
  have 1: "distinct (map fst (token_to_endpoint_map (snd w1)))"
    unfolding r(3) by simp
  from db have 2: "distinct (map fst (bootstrap_tokens (snd w1)))"
    unfolding r(4) remove_by_value_def by (rule distinct_map_filter)
  from so have 3: "sorted (sorted_tokens (snd w1))"
    unfolding r(9) by simp
  from 1 2 3 show ?thesis by (simp add: well_formed_def)
qed

lemma well_formed_apply_mutation:
  assumes wf: "well_formed (snd w)" and a: "apply_mutation m w = Inr w1"
  shows "well_formed (snd w1)"
proof (cases m)
  case (Update_topology ep dr opt_st)
  with wf a show ?thesis by (auto simp add: well_formed_def update_topology_def)
next
  case (Update_normal_tokens tokens endpoint)
  with wf a show ?thesis by (simp add: well_formed_update_normal_tokens)
next
  case (Remove_endpoint endpoint)
  with wf a show ?thesis
    by (auto simp add: well_formed_def remove_endpoint_def impl_remove_endpoint_def Let_def
        invalidate_cached_rings_def del_replacing_endpoint_def sort_tokens_def
        remove_by_value_def distinct_map_filter)
next
  case (Add_bootstrap_tokens tokens endpoint)
  with wf a show ?thesis
    by (auto simp add: well_formed_def add_bootstrap_tokens_def distinct_fold_update
        distinct_map_filter split: if_splits)
next
  case (Remove_bootstrap_tokens tokens)
  with wf a show ?thesis
    by (auto simp add: well_formed_def remove_bootstrap_tokens_def distinct_fold_delete)
next
  case (Add_leaving_endpoint endpoint)
  with wf a show ?thesis by (auto simp add: well_formed_def add_leaving_endpoint_def)
next
  case (Del_leaving_endpoint endpoint)
  with wf a show ?thesis by (auto simp add: well_formed_def del_leaving_endpoint_def)
next
  case (Add_replacing_endpoint existing_node replacing_node)
  with wf a show ?thesis by (auto simp add: well_formed_def add_replacing_endpoint_def)
next
  case (Del_replacing_endpoint existing_node)
  with wf a show ?thesis by (auto simp add: well_formed_def del_replacing_endpoint_def)
qed

lemma well_formed_apply_mutations:
  "well_formed (snd w) \<Longrightarrow> apply_mutations ms w = Inr w1 \<Longrightarrow> well_formed (snd w1)"
proof (induction ms arbitrary: w)
  case Nil
  then show ?case by simp
next
  case (Cons m ms)
  from Cons.prems(2) obtain w2 where 1: "apply_mutation m w = Inr w2"
    and 2: "apply_mutations ms w2 = Inr w1"
    by (auto split: sum.splits)
  from well_formed_apply_mutation [OF Cons.prems(1) 1] have "well_formed (snd w2)" .
  from Cons.IH [OF this 2] show ?case .
qed

subsection \<open>The sorted token vector\<close>

text \<open>
  The public \<^verbatim>\<open>remove_endpoint\<close> sorts after it erases: its token vector is the sorted
  keys of its token map.
\<close>

lemma remove_endpoint_sorts:
  "sorted_tokens (snd (remove_endpoint endpoint w))
     = sort (map fst (token_to_endpoint_map (snd (remove_endpoint endpoint w))))"
  by (simp add: remove_endpoint_def Let_def sort_tokens_def)

text \<open>
  Claim C3 does not hold of the code. \<^verbatim>\<open>update_normal_tokens\<close> sorts only when a token
  was inserted: when it erases a token of the endpoint and inserts none, the token vector
  keeps the erased token. From the empty snapshot, the endpoint 1 is added to the topology,
  given the tokens 10 and 20, and then the token 10 alone: the token map has the key 10,
  the token vector is still 10, 20.
\<close>

theorem update_normal_tokens_shrink_stale:
  "\<exists>w. apply_mutations shrinking_mutations (0, new_token_metadata_impl) = Inr w
       \<and> map fst (token_to_endpoint_map (snd w)) = [10]
       \<and> sorted_tokens (snd w) = [10, 20]
       \<and> sorted_tokens (snd w) \<noteq> sort (map fst (token_to_endpoint_map (snd w)))"
  by (simp add: shrinking_mutations_def new_token_metadata_impl_def update_topology_def
      add_or_update_endpoint_def update_normal_tokens_def has_endpoint_def Let_def
      invalidate_cached_rings_def update_normal_token_owners_def sort_tokens_def
      remove_by_value_def set_insert_def)

subsection \<open>Repeating \<^verbatim>\<open>update_normal_tokens\<close>\<close>

lemma update_normal_tokens_succeeds:
  "has_endpoint (topology (snd w)) endpoint \<Longrightarrow>
     \<exists>w1. update_normal_tokens tokens endpoint w = Inr w1"
  by (simp add: update_normal_tokens_def Let_def)

lemma update_normal_tokens_again:
  assumes d: "distinct (map fst (token_to_endpoint_map (snd w)))"
    and u: "update_normal_tokens tokens endpoint w = Inr w1"
  shows "update_normal_tokens tokens endpoint w1 =
           Inr (if tokens = [] then w1 else invalidate_cached_rings w1)"
proof (cases "tokens = []")
  case True
  then show ?thesis by (simp add: update_normal_tokens_def)
next
  case False
  define p1 where "p1 = erase_previous_tokens (token_to_endpoint_map (snd w)) tokens endpoint"
  define p2 where "p2 = insert_tokens (snd p1) endpoint (fst p1) False"
  define s1 where "s1 = snd w1"
  note r = update_normal_tokens_result [OF False u p1_def p2_def, folded s1_def]
  have m2: "fst p2 = fst (insert_tokens (snd p1) endpoint (fst p1) False)"
    unfolding p2_def ..
  from erase_previous_tokens_stable [OF d p1_def m2]
  have e: "erase_previous_tokens (token_to_endpoint_map s1) tokens endpoint
             = (token_to_endpoint_map s1, [])"
    unfolding r(3) by simp
  have h: "has_endpoint (topology s1) endpoint"
    unfolding r(7) by (rule r(1))
  have b: "remove_by_value (bootstrap_tokens s1) endpoint = bootstrap_tokens s1"
    unfolding r(4) by (rule remove_by_value_idem)
  have l: "removeAll endpoint (leaving_endpoints s1) = leaving_endpoints s1"
    unfolding r(5) by simp
  have n: "fold (\<lambda>p eps. set_insert (snd p) eps) (token_to_endpoint_map s1) []
             = normal_token_owners s1"
    unfolding r(3) r(6) ..
  have w1: "w1 = (fst w1, s1)" unfolding s1_def by simp
  have "update_normal_tokens tokens endpoint (fst w1, s1) = Inr (invalidate_cached_rings (fst w1, s1))"
    using False h
    by (simp add: update_normal_tokens_def Let_def e b l n invalidate_cached_rings_def
        update_normal_token_owners_def)
  with False w1 show ?thesis by simp
qed

text \<open>
  Claim C8, amended. For an endpoint in the topology, applying \<^verbatim>\<open>update_normal_tokens(T, e)\<close>
  a second time succeeds and changes nothing but the ring version: for a non-empty \<open>T\<close> the
  second call increments the static counter once more and gives the snapshot that version,
  every other part of the state is the one after the first call. The token map is a map:
  its keys are distinct.
\<close>

theorem update_normal_tokens_twice:
  assumes d: "distinct (map fst (token_to_endpoint_map (snd w)))"
    and h: "has_endpoint (topology (snd w)) endpoint"
  shows "\<exists>w1. update_normal_tokens tokens endpoint w = Inr w1
           \<and> update_normal_tokens tokens endpoint w1 =
               Inr (if tokens = [] then w1
                    else (fst w1 + 1, (snd w1)\<lparr>ring_version := fst w1 + 1\<rparr>))"
proof -
  from update_normal_tokens_succeeds [OF h]
  obtain w1 where u: "update_normal_tokens tokens endpoint w = Inr w1"
    by blast
  from update_normal_tokens_again [OF d u] u show ?thesis
    by (simp add: invalidate_cached_rings_def)
qed

theorem update_normal_tokens_twice_witness:
  "\<exists>w1. update_normal_tokens [10, 15] 1 (3, three_node_ring) = Inr w1
      \<and> update_normal_tokens [10, 15] 1 w1
          = Inr (fst w1 + 1, (snd w1)\<lparr>ring_version := fst w1 + 1\<rparr>)"
proof -
  have d: "distinct (map fst (token_to_endpoint_map (snd (3::64 word, three_node_ring))))"
    by (simp add: three_node_ring_def new_token_metadata_impl_def)
  have h: "has_endpoint (topology (snd (3::64 word, three_node_ring))) 1"
    by (simp add: three_node_ring_def new_token_metadata_impl_def has_endpoint_def)
  from update_normal_tokens_twice [OF d h, of "[10, 15]"] show ?thesis by simp
qed

text \<open>
  The claim as stated fails: endpoint 1 is in the topology and owns the token 10; with the
  static counter at 3 the first application leaves the ring version 4 and the second 5.
\<close>

theorem update_normal_tokens_twice_counterexample:
  "has_endpoint (topology three_node_ring) 1
   \<and> (case update_normal_tokens [10] 1 (3, three_node_ring) of
         Inl e \<Rightarrow> False
       | Inr w1 \<Rightarrow>
           (case update_normal_tokens [10] 1 w1 of
              Inl e \<Rightarrow> False
            | Inr w2 \<Rightarrow>
                snd w2 \<noteq> snd w1
                \<and> ring_version (snd w1) = 4 \<and> ring_version (snd w2) = 5))"
  by (simp add: three_node_ring_def new_token_metadata_impl_def
      update_normal_tokens_def has_endpoint_def Let_def
      invalidate_cached_rings_def update_normal_token_owners_def sort_tokens_def
      remove_by_value_def set_insert_def)

end
